theory Spec2Isabelle
  imports Main "HOL-Library.Word"
begin

section \<open>The signature cache of script/sigcache.cpp\<close>

text \<open>
  The file defines the class \<open>CSignatureCache\<close> (a nonce and a
  \<open>boost::unordered_set\<close> of 256-bit entries) and
  \<open>CachingTransactionSignatureChecker::VerifySignature\<close>, which consults, fills and
  purges the cache around the base class's signature check. The model is sequential:
  the readers-writer lock \<open>cs_sigcache\<close> is not represented.
\<close>

subsection \<open>Machine types\<close>

type_synonym byte = "8 word"
type_synonym uint256 = "256 word"
type_synonym size_t = "64 word"

text \<open>\<open>int64_t\<close>, the result type of \<open>GetArg\<close>: the bit pattern, read as a signed
  number by \<open>sint\<close>.\<close>

type_synonym int64_t = "64 word"

text \<open>
  Modelled from the spec: \<open>uint256::begin()\<close> (uint256.h is not part of the sources).
  A \<open>uint256\<close> is a blob of 32 bytes; \<open>begin()\<close> points at the first of them. The
  blob is identified with the 256-bit word whose byte \<open>i\<close> is bits \<open>8 i .. 8 i + 7\<close>.
\<close>

definition uint256_bytes :: "uint256 \<Rightarrow> byte list" where
  "uint256_bytes w = map (\<lambda>i. ucast (drop_bit (8 * i) w)) [0..<32]"

subsection \<open>The hasher object\<close>

text \<open>
  Modelled from the spec: \<open>CSHA256\<close> (crypto/sha256.h is not part of the sources).
  The object collects the bytes written to it; \<open>Finalize\<close> applies the 256-bit digest
  primitive, a parameter of the model, to everything written.
\<close>

datatype CSHA256 = CSHA256 (written: "byte list")

definition Write :: "CSHA256 \<Rightarrow> byte list \<Rightarrow> CSHA256" where
  "Write h data = CSHA256 (written h @ data)"

definition Finalize :: "(byte list \<Rightarrow> uint256) \<Rightarrow> CSHA256 \<Rightarrow> uint256" where
  "Finalize H h = H (written h)"

subsection \<open>The container\<close>

text \<open>
  \<open>map_type\<close> is \<open>boost::unordered_set<uint256, CSignatureCacheHasher>\<close>. The model
  is the list of its buckets, each bucket the list of the keys stored there in iteration
  order: \<open>bucket_count()\<close> is the number of buckets, \<open>begin(s)\<close> .. \<open>end(s)\<close> is
  bucket \<open>s\<close>.
\<close>

type_synonym map_type = "uint256 list list"

text \<open>
  Modelled from the spec: \<open>uint256::GetCheapHash\<close> (uint256.h is not part of the
  sources): the first eight bytes of the blob as a 64-bit number.
\<close>

definition GetCheapHash :: "uint256 \<Rightarrow> 64 word" where
  "GetCheapHash key = ucast key"

definition CSignatureCacheHasher :: "uint256 \<Rightarrow> size_t" where
  "CSignatureCacheHasher key = GetCheapHash key"

definition bucket_count :: "map_type \<Rightarrow> nat" where
  "bucket_count bs = length bs"

definition us_size :: "map_type \<Rightarrow> nat" where
  "us_size bs = length (concat bs)"

definition elems :: "map_type \<Rightarrow> uint256 set" where
  "elems bs = set (concat bs)"

definition us_count :: "map_type \<Rightarrow> uint256 \<Rightarrow> nat" where
  "us_count bs k = (if k \<in> elems bs then 1 else 0)"

text \<open>\<open>erase(key)\<close> removes the key from its bucket and never changes the bucket array.\<close>

definition us_erase :: "uint256 \<Rightarrow> map_type \<Rightarrow> map_type" where
  "us_erase k bs = map (removeAll k) bs"

text \<open>The range \<open>begin(s)\<close> .. \<open>end(s)\<close> of bucket \<open>s\<close>, as a list. The source calls
  it with \<open>s < bucket_count()\<close> only; outside that range the model gives the empty range.\<close>

definition us_begin :: "map_type \<Rightarrow> nat \<Rightarrow> uint256 list" where
  "us_begin bs s = (if s < length bs then bs ! s else [])"

subsection \<open>The collaborators outside the file\<close>

text \<open>
  The functions the file calls and does not define are parameters of the model:
  \<^item> \<open>sha256\<close>: the digest computed by \<open>CSHA256\<close>;
  \<^item> \<open>DynamicUsage\<close>: \<open>memusage::DynamicUsage\<close> on the container;
  \<^item> \<open>us_insert\<close>: the container's \<open>insert\<close>, whose bucket choice and rehashing
    belong to the library;
  \<^item> \<open>maxsigcachesize\<close>: the value of
    \<open>GetArg("-maxsigcachesize", DEFAULT_MAX_SIG_CACHE_SIZE)\<close>;
  \<^item> \<open>baseVerify\<close>: \<open>TransactionSignatureChecker::VerifySignature\<close>, on the
    signature, the public key's bytes and the signature hash.
\<close>

record env =
  sha256 :: "byte list \<Rightarrow> uint256"
  DynamicUsage :: "map_type \<Rightarrow> size_t"
  us_insert :: "uint256 \<Rightarrow> map_type \<Rightarrow> map_type"
  maxsigcachesize :: int64_t
  baseVerify :: "byte list \<Rightarrow> byte list \<Rightarrow> uint256 \<Rightarrow> bool"

text \<open>
  Modelled from the spec: \<open>GetRand\<close> (random.h is not part of the sources). The
  random source is the sequence \<open>rnd\<close> of raw draws; draw number \<open>t\<close> is reduced to
  an index below \<open>nMax\<close>, so that every index below \<open>nMax\<close> is a possible result.
\<close>

definition GetRand :: "(nat \<Rightarrow> nat) \<Rightarrow> nat \<Rightarrow> nat \<Rightarrow> nat" where
  "GetRand rnd t nMax = (if nMax = 0 then 0 else rnd t mod nMax)"

subsection \<open>CSignatureCache\<close>

record CSignatureCache =
  nonce :: uint256
  setValid :: map_type

text \<open>\<open>pubkey\<close> stands for the bytes \<open>pubkey[0]\<close> .. \<open>pubkey[pubkey.size() - 1]\<close>.\<close>

definition ComputeEntry ::
  "env \<Rightarrow> CSignatureCache \<Rightarrow> uint256 \<Rightarrow> byte list \<Rightarrow> byte list \<Rightarrow> uint256" where
  "ComputeEntry E c hash vchSig pubkey =
     Finalize (sha256 E)
       (Write (Write (Write (Write (CSHA256 []) (uint256_bytes (nonce c)))
          (uint256_bytes hash)) pubkey) vchSig)"

text \<open>\<open>Get\<close> returns the answer and the cache object it leaves behind.\<close>

definition Get :: "CSignatureCache \<Rightarrow> uint256 \<Rightarrow> bool \<times> CSignatureCache" where
  "Get c entry = (us_count (setValid c) entry \<noteq> 0, c)"

definition Erase :: "CSignatureCache \<Rightarrow> uint256 \<Rightarrow> CSignatureCache" where
  "Erase c entry = c\<lparr>setValid := us_erase entry (setValid c)\<rparr>"

text \<open>\<open>GetArg(...) * ((size_t) 1 << 20)\<close>: with a 64-bit \<open>size_t\<close> the signed
  factor is converted to \<open>size_t\<close> and the product is taken modulo \<open>2 ^ 64\<close>.\<close>

definition nMaxCacheSize :: "env \<Rightarrow> size_t" where
  "nMaxCacheSize E = maxsigcachesize E * push_bit 20 1"

text \<open>
  The \<open>while\<close> loop of \<open>Set\<close>, from iteration \<open>t\<close> on. The loop need not exit:
  \<open>None\<close> is the loop that runs forever.
\<close>

partial_function (option) evict ::
  "env \<Rightarrow> (nat \<Rightarrow> nat) \<Rightarrow> size_t \<Rightarrow> nat \<Rightarrow> map_type \<Rightarrow> map_type option" where
  "evict E rnd nMax t bs =
     (if DynamicUsage E bs > nMax then
        (let s = GetRand rnd t (bucket_count bs);
             it = us_begin bs s
         in evict E rnd nMax (Suc t) (if it \<noteq> [] then us_erase (hd it) bs else bs))
      else Some bs)"

declare evict.simps [code]

definition Set :: "env \<Rightarrow> (nat \<Rightarrow> nat) \<Rightarrow> CSignatureCache \<Rightarrow> uint256 \<Rightarrow> CSignatureCache option" where
  "Set E rnd c entry =
     (if nMaxCacheSize E \<le> 0 then Some c
      else (case evict E rnd (nMaxCacheSize E) 0 (setValid c) of
              None \<Rightarrow> None
            | Some bs \<Rightarrow> Some (c\<lparr>setValid := us_insert E entry bs\<rparr>)))"

subsection \<open>VerifySignature\<close>

text \<open>
  The file holds two objects named \<open>signatureCache\<close>: one at namespace scope and one
  static local of \<open>VerifySignature\<close>, which hides the first inside the function.
  Both are taken as constructed: the constructor fills the nonce from \<open>GetRandBytes\<close>
  and leaves the set empty, and nothing assigns the nonce afterwards.
\<close>

record globals =
  signatureCache :: CSignatureCache
  VerifySignature_signatureCache :: CSignatureCache

text \<open>
  \<open>store\<close> is the checker's member of that name, \<open>rnd\<close> the draws \<open>GetRand\<close>
  makes during the call. The result is the number of calls of the base class's
  \<open>VerifySignature\<close> made, and, when the call returns, its value and the program state
  it leaves.
\<close>

definition VerifySignature ::
  "env \<Rightarrow> (nat \<Rightarrow> nat) \<Rightarrow> bool \<Rightarrow> byte list \<Rightarrow> byte list \<Rightarrow> uint256 \<Rightarrow> globals
     \<Rightarrow> nat \<times> (bool \<times> globals) option" where
  "VerifySignature E rnd store vchSig pubkey sighash g =
     (let c = VerifySignature_signatureCache g;
          entry = ComputeEntry E c sighash vchSig pubkey;
          (hit, c1) = Get c entry
      in if hit then
           (0, Some (True,
              if \<not> store then g\<lparr>VerifySignature_signatureCache := Erase c1 entry\<rparr>
              else g\<lparr>VerifySignature_signatureCache := c1\<rparr>))
         else if \<not> baseVerify E vchSig pubkey sighash then
           (1, Some (False, g\<lparr>VerifySignature_signatureCache := c1\<rparr>))
         else if store then
           (1, map_option (\<lambda>c2. (True, g\<lparr>VerifySignature_signatureCache := c2\<rparr>))
                 (Set E rnd c1 entry))
         else (1, Some (True, g\<lparr>VerifySignature_signatureCache := c1\<rparr>)))"

subsection \<open>The fingerprint of the specification\<close>

text \<open>
  The specification's \<open>compute(secret, messageDigest, publicKey, signature)\<close>: a keyed
  digest, the secret mixed in before the message digest, the public key and the
  signature bytes.
\<close>

definition spec_compute ::
  "(byte list \<Rightarrow> uint256) \<Rightarrow> byte list \<Rightarrow> byte list \<Rightarrow> byte list \<Rightarrow> byte list \<Rightarrow> uint256" where
  "spec_compute H secret messageDigest publicKey signature =
     H (secret @ messageDigest @ publicKey @ signature)"

text \<open>Two distinct messages with one digest.\<close>

definition collision :: "(byte list \<Rightarrow> uint256) \<Rightarrow> byte list \<Rightarrow> byte list \<Rightarrow> bool" where
  "collision H m1 m2 = (m1 \<noteq> m2 \<and> H m1 = H m2)"

text \<open>What the C++ container requirements promise of \<open>insert\<close>: afterwards the set
  holds the key and what it held before.\<close>

definition insert_contract :: "(uint256 \<Rightarrow> map_type \<Rightarrow> map_type) \<Rightarrow> bool" where
  "insert_contract ins = (\<forall>k bs. elems (ins k bs) = insert k (elems bs))"

subsection \<open>Histories of calls\<close>

text \<open>A call of \<open>VerifySignature\<close>: its random draws, the \<open>store\<close> member and the
  three arguments. \<open>run_calls\<close> makes the calls one after the other, each on the state
  the one before left; \<open>None\<close> when one of them does not return.\<close>

type_synonym call = "(nat \<Rightarrow> nat) \<times> bool \<times> byte list \<times> byte list \<times> uint256"

fun run_calls :: "env \<Rightarrow> globals \<Rightarrow> call list \<Rightarrow> globals option" where
  "run_calls E g [] = Some g"
| "run_calls E g ((rnd, store, vchSig, pubkey, sighash) # cs) =
     (case snd (VerifySignature E rnd store vchSig pubkey sighash g) of
        None \<Rightarrow> None
      | Some (r, g') \<Rightarrow> run_calls E g' cs)"

subsection \<open>Instances of the collaborators, for concrete runs\<close>

text \<open>A stand-in digest that mixes every byte of the message.\<close>

definition fold_digest :: "byte list \<Rightarrow> uint256" where
  "fold_digest m = word_of_int (foldl (\<lambda>acc b. acc * 257 + uint b + 1) 0 m)"

text \<open>A memory estimate linear in the number of keys and of buckets: 64 bytes for each
  node, 8 for each bucket.\<close>

definition linear_usage :: "map_type \<Rightarrow> size_t" where
  "linear_usage bs = 64 * of_nat (us_size bs) + 8 * of_nat (bucket_count bs)"

text \<open>An \<open>insert\<close> that never rehashes: a new key goes to the end of the bucket that
  \<open>CSignatureCacheHasher\<close> selects.\<close>

definition insert_by_hash :: "uint256 \<Rightarrow> map_type \<Rightarrow> map_type" where
  "insert_by_hash k bs =
     (if k \<in> elems bs then bs
      else if bs = [] then [[k]]
      else (let i = unat (CSignatureCacheHasher k) mod length bs in bs[i := bs ! i @ [k]]))"

text \<open>The mock verifier of the specification's scenario: valid only for the signature
  bytes \<open>[1, 2, 3]\<close> against the key \<open>P\<close> and the digest \<open>H\<close>.\<close>

definition mock_P :: "byte list" where
  "mock_P = 2 # replicate 32 1"

definition mock_H :: uint256 where
  "mock_H = 5"

definition mock_verify :: "byte list \<Rightarrow> byte list \<Rightarrow> uint256 \<Rightarrow> bool" where
  "mock_verify vchSig pubkey sighash =
     (vchSig = [1, 2, 3] \<and> pubkey = mock_P \<and> sighash = mock_H)"

text \<open>The entry the cache of the examples derives for the valid triple.\<close>

definition ex_entry :: uint256 where
  "ex_entry = 49519670787226823230752300166259190307135933054082835784085139434229709832348"

definition ex_env :: "int64_t \<Rightarrow> env" where
  "ex_env m =
     \<lparr>sha256 = fold_digest, DynamicUsage = linear_usage, us_insert = insert_by_hash,
      maxsigcachesize = m, baseVerify = mock_verify\<rparr>"

definition ex_cache :: "map_type \<Rightarrow> CSignatureCache" where
  "ex_cache bs = \<lparr>nonce = 11, setValid = bs\<rparr>"

definition ex_globals :: "map_type \<Rightarrow> globals" where
  "ex_globals bs =
     \<lparr>signatureCache = ex_cache [[]], VerifySignature_signatureCache = ex_cache bs\<rparr>"

text \<open>\<open>n\<close> keys that the hasher sends to bucket \<open>j\<close> of \<open>b\<close> buckets: \<open>j\<close>,
  \<open>j + b\<close>, \<open>j + 2 b\<close>, ...\<close>

definition bucket_keys :: "nat \<Rightarrow> nat \<Rightarrow> nat \<Rightarrow> uint256 list" where
  "bucket_keys b j n = map (\<lambda>i. of_nat (j + b * i)) [0..<n]"

text \<open>A set of 16383 keys in two buckets, the most that one mebibyte holds under
  \<open>linear_usage\<close>, and a set of 16384 keys in three buckets, the third one empty.\<close>

definition full_store :: map_type where
  "full_store = [bucket_keys 2 0 8192, bucket_keys 2 1 8191]"

definition over_store :: map_type where
  "over_store = [bucket_keys 3 0 8192, bucket_keys 3 1 8192, []]"

subsection \<open>Random sources\<close>

text \<open>A sequence of draws is fair for \<open>n\<close> buckets when every bucket index comes up
  again after any number of draws.\<close>

definition fair_draws :: "(nat \<Rightarrow> nat) \<Rightarrow> nat \<Rightarrow> bool" where
  "fair_draws rnd n = (\<forall>t s. s < n \<longrightarrow> (\<exists>t'\<ge>t. GetRand rnd t' n = s))"

section \<open>Facts about the model\<close>

lemma elems_us_erase: "elems (us_erase k bs) = elems bs - {k}"
  by (auto simp: elems_def us_erase_def)

lemma ComputeEntry_message:
  "ComputeEntry E c hash vchSig pubkey =
     sha256 E (uint256_bytes (nonce c) @ uint256_bytes hash @ pubkey @ vchSig)"
  by (simp add: ComputeEntry_def Write_def Finalize_def)

lemma evict_within_bound:
  "\<not> DynamicUsage E bs > nMax \<Longrightarrow> evict E rnd nMax t bs = Some bs"
  by (subst evict.simps) simp

lemma Set_nonce: "Set E rnd c entry = Some c' \<Longrightarrow> nonce c' = nonce c"
  by (auto simp: Set_def split: if_splits option.splits)

lemma VerifySignature_nonce:
  assumes "snd (VerifySignature E rnd store vchSig pubkey sighash g) = Some (r, g')"
  shows "nonce (VerifySignature_signatureCache g') = nonce (VerifySignature_signatureCache g)"
proof (cases "Set E rnd (VerifySignature_signatureCache g)
        (ComputeEntry E (VerifySignature_signatureCache g) sighash vchSig pubkey)")
  case None
  with assms show ?thesis
    by (auto simp: VerifySignature_def Get_def Let_def Erase_def split: if_splits)
next
  case (Some c2)
  with assms Set_nonce [OF Some] show ?thesis
    by (auto simp: VerifySignature_def Get_def Let_def Erase_def split: if_splits)
qed

lemma uint256_bytes_length: "length (uint256_bytes w) = 32"
  by (simp add: uint256_bytes_def)

lemma uint256_bytes_inj:
  assumes "uint256_bytes a = uint256_bytes b"
  shows "a = b"
proof (rule bit_word_eqI)
  fix n :: nat
  assume n: "n < LENGTH(256)"
  have all: "\<forall>i\<in>set [0..<32]. (ucast (drop_bit (8 * i) a) :: byte) = ucast (drop_bit (8 * i) b)"
    using assms unfolding uint256_bytes_def by (simp only: map_eq_conv)
  have i: "n div 8 \<in> set [0..<32]"
    using n by simp
  have eq: "(ucast (drop_bit (8 * (n div 8)) a) :: byte) = ucast (drop_bit (8 * (n div 8)) b)"
    using all i by blast
  have "bit (ucast (drop_bit (8 * (n div 8)) w) :: byte) (n mod 8) = bit w n" for w :: uint256
    by (simp add: bit_ucast_iff bit_drop_bit_eq)
  with eq show "bit a n = bit b n"
    by metis
qed

lemma length_us_erase: "length (us_erase k bs) = length bs"
  by (simp add: us_erase_def)

lemma us_size_erase_le: "us_size (us_erase k bs) \<le> us_size bs"
  unfolding us_size_def us_erase_def
  by (induction bs) (auto simp: removeAll_filter_not_eq intro: add_le_mono)

lemma us_size_erase_less:
  assumes "k \<in> elems bs"
  shows "us_size (us_erase k bs) < us_size bs"
  using assms unfolding us_size_def us_erase_def elems_def
proof (induction bs)
  case Nil
  then show ?case by simp
next
  case (Cons b bs)
  have le: "length (concat (map (removeAll k) bs)) \<le> length (concat bs)"
    using us_size_erase_le [of k bs] by (simp add: us_size_def us_erase_def)
  show ?case
  proof (cases "k \<in> set b")
    case True
    then have "length (removeAll k b) < length b"
      by (simp add: removeAll_filter_not_eq length_filter_less)
    with le show ?thesis by simp
  next
    case False
    with Cons have "length (concat (map (removeAll k) bs)) < length (concat bs)"
      by simp
    then have "length (removeAll k b) + length (concat (map (removeAll k) bs))
        < length b + length (concat bs)"
      by (intro add_le_less_mono) (simp_all add: removeAll_filter_not_eq)
    then show ?thesis by simp
  qed
qed

lemma us_begin_hd_elem:
  assumes "us_begin bs s \<noteq> []"
  shows "hd (us_begin bs s) \<in> elems bs"
proof -
  from assms have s: "s < length bs" and ne: "bs ! s \<noteq> []"
    by (auto simp: us_begin_def split: if_splits)
  then have "hd (bs ! s) \<in> set (bs ! s)" "bs ! s \<in> set bs"
    by simp_all
  with s show ?thesis
    by (auto simp: elems_def us_begin_def)
qed

lemma nonempty_bucket:
  assumes "bs \<noteq> replicate (length bs) []"
  shows "\<exists>s<length bs. bs ! s \<noteq> []"
proof (rule ccontr)
  assume "\<not> (\<exists>s<length bs. bs ! s \<noteq> [])"
  then have "\<forall>s<length bs. bs ! s = replicate (length bs) [] ! s"
    by simp
  then have "bs = replicate (length bs) []"
    by (intro nth_equalityI) simp_all
  with assms show False by contradiction
qed

lemma evict_result:
  assumes "evict E rnd nMax t bs = Some bs'"
  shows "\<not> DynamicUsage E bs' > nMax \<and> elems bs' \<subseteq> elems bs \<and> length bs' = length bs"
proof (rule evict.raw_induct [where P = "\<lambda>E rnd nMax t bs bs'.
    \<not> DynamicUsage E bs' > nMax \<and> elems bs' \<subseteq> elems bs \<and> length bs' = length bs",
    OF _ assms])
  fix evict' :: "env \<Rightarrow> (nat \<Rightarrow> nat) \<Rightarrow> size_t \<Rightarrow> nat \<Rightarrow> map_type \<Rightarrow> map_type option"
  fix E rnd nMax t bs bs'
  assume IH: "\<And>E rnd nMax t bs y. evict' E rnd nMax t bs = Some y \<Longrightarrow>
      \<not> DynamicUsage E y > nMax \<and> elems y \<subseteq> elems bs \<and> length y = length bs"
  assume body: "(if nMax < DynamicUsage E bs
      then let s = GetRand rnd t (bucket_count bs); it = us_begin bs s
           in evict' E rnd nMax (Suc t) (if it \<noteq> [] then us_erase (hd it) bs else bs)
      else Some bs) = Some bs'"
  show "\<not> DynamicUsage E bs' > nMax \<and> elems bs' \<subseteq> elems bs \<and> length bs' = length bs"
  proof (cases "DynamicUsage E bs > nMax")
    case False
    with body show ?thesis by simp
  next
    case True
    let ?it = "us_begin bs (GetRand rnd t (bucket_count bs))"
    let ?next = "if ?it \<noteq> [] then us_erase (hd ?it) bs else bs"
    from True body have "evict' E rnd nMax (Suc t) ?next = Some bs'"
      by (simp add: Let_def)
    from IH [OF this] have "\<not> DynamicUsage E bs' > nMax" "elems bs' \<subseteq> elems ?next"
      "length bs' = length ?next"
      by simp_all
    moreover have "elems ?next \<subseteq> elems bs" "length ?next = length bs"
      by (auto simp: elems_us_erase length_us_erase)
    ultimately show ?thesis by auto
  qed
qed

lemma evict_stuck:
  assumes over: "DynamicUsage E bs > nMax"
    and miss: "\<forall>t. us_begin bs (GetRand rnd t (bucket_count bs)) = []"
  shows "evict E rnd nMax t bs = None"
proof (cases "evict E rnd nMax t bs")
  case None
  then show ?thesis .
next
  case (Some y)
  have "\<not> (E = E \<and> rnd = rnd \<and> nMax = nMax \<and> bs = bs)"
  proof (rule evict.raw_induct [where P = "\<lambda>E' rnd' nMax' t' bs' y'.
      \<not> (E' = E \<and> rnd' = rnd \<and> nMax' = nMax \<and> bs' = bs)", OF _ Some])
    fix evict' :: "env \<Rightarrow> (nat \<Rightarrow> nat) \<Rightarrow> size_t \<Rightarrow> nat \<Rightarrow> map_type \<Rightarrow> map_type option"
    fix E' rnd' nMax' t' bs' y'
    assume IH: "\<And>E' rnd' nMax' t' bs' y'. evict' E' rnd' nMax' t' bs' = Some y' \<Longrightarrow>
        \<not> (E' = E \<and> rnd' = rnd \<and> nMax' = nMax \<and> bs' = bs)"
    assume body: "(if nMax' < DynamicUsage E' bs'
        then let s = GetRand rnd' t' (bucket_count bs'); it = us_begin bs' s
             in evict' E' rnd' nMax' (Suc t') (if it \<noteq> [] then us_erase (hd it) bs' else bs')
        else Some bs') = Some y'"
    show "\<not> (E' = E \<and> rnd' = rnd \<and> nMax' = nMax \<and> bs' = bs)"
    proof
      assume eq: "E' = E \<and> rnd' = rnd \<and> nMax' = nMax \<and> bs' = bs"
      with body over miss have "evict' E rnd nMax (Suc t') bs = Some y'"
        by (simp add: Let_def)
      from IH [OF this] show False by simp
    qed
  qed
  then show ?thesis by simp
qed

lemma evict_terminates:
  assumes fair: "fair_draws rnd n"
    and empty: "\<not> DynamicUsage E (replicate n []) > nMax"
  shows "length bs = n \<Longrightarrow> \<exists>bs'. evict E rnd nMax t bs = Some bs'"
proof (induction "us_size bs" arbitrary: bs t rule: less_induct)
  case less
  show ?case
  proof (cases "DynamicUsage E bs > nMax")
    case False
    then show ?thesis by (simp add: evict_within_bound)
  next
    case True
    with empty less.prems have "bs \<noteq> replicate (length bs) []"
      by auto
    then obtain s where s: "s < length bs" "bs ! s \<noteq> []"
      using nonempty_bucket by blast
    with fair less.prems obtain t' where t': "t \<le> t'" "GetRand rnd t' n = s"
      unfolding fair_draws_def by blast
    have "t + d = t' \<Longrightarrow> \<exists>bs'. evict E rnd nMax t bs = Some bs'" for d
    proof (induction d arbitrary: t)
      case 0
      then have hit: "us_begin bs (GetRand rnd t (bucket_count bs)) \<noteq> []"
        using t' s less.prems by (simp add: us_begin_def bucket_count_def)
      let ?k = "hd (us_begin bs (GetRand rnd t (bucket_count bs)))"
      have "us_size (us_erase ?k bs) < us_size bs"
        using hit by (intro us_size_erase_less us_begin_hd_elem)
      from less.hyps [OF this, of "Suc t"] less.prems
      obtain bs' where "evict E rnd nMax (Suc t) (us_erase ?k bs) = Some bs'"
        by (auto simp: length_us_erase)
      with True hit show ?case
        by (subst evict.simps) (simp add: Let_def)
    next
      case (Suc d)
      show ?case
      proof (cases "us_begin bs (GetRand rnd t (bucket_count bs)) = []")
        case miss: True
        from Suc.prems have "Suc t + d = t'" by simp
        from Suc.IH [OF this] obtain bs' where "evict E rnd nMax (Suc t) bs = Some bs'"
          by blast
        with True miss show ?thesis
          by (subst evict.simps) (simp add: Let_def)
      next
        case hit: False
        let ?k = "hd (us_begin bs (GetRand rnd t (bucket_count bs)))"
        have "us_size (us_erase ?k bs) < us_size bs"
          using hit by (intro us_size_erase_less us_begin_hd_elem)
        from less.hyps [OF this, of "Suc t"] less.prems
        obtain bs' where "evict E rnd nMax (Suc t) (us_erase ?k bs) = Some bs'"
          by (auto simp: length_us_erase)
        with True hit show ?thesis
          by (subst evict.simps) (simp add: Let_def)
      qed
    qed
    from this [of "t' - t"] t'(1) show ?thesis by simp
  qed
qed

lemma Set_zero: "maxsigcachesize E = 0 \<Longrightarrow> Set E rnd c entry = Some c"
  by (simp add: Set_def nMaxCacheSize_def)

lemma Set_returns:
  assumes "fair_draws rnd (bucket_count (setValid c))"
    and "\<not> DynamicUsage E (replicate (bucket_count (setValid c)) []) > nMaxCacheSize E"
  shows "\<exists>c'. Set E rnd c entry = Some c'"
proof (cases "nMaxCacheSize E \<le> 0")
  case True
  then show ?thesis by (simp add: Set_def)
next
  case False
  from evict_terminates [OF assms, of "setValid c" 0]
  obtain bs where "evict E rnd (nMaxCacheSize E) 0 (setValid c) = Some bs"
    by (auto simp: bucket_count_def)
  with False show ?thesis by (simp add: Set_def)
qed

lemma Set_result:
  assumes "Set E rnd c entry = Some c'" and "nMaxCacheSize E \<noteq> 0"
  shows "\<exists>bs. c' = c\<lparr>setValid := us_insert E entry bs\<rparr>
           \<and> evict E rnd (nMaxCacheSize E) 0 (setValid c) = Some bs"
  using assms by (auto simp: Set_def split: option.splits if_splits)

subsection \<open>The concrete instances\<close>

lemma ex_env_sel:
  "sha256 (ex_env m) = fold_digest" "DynamicUsage (ex_env m) = linear_usage"
  "us_insert (ex_env m) = insert_by_hash" "maxsigcachesize (ex_env m) = m"
  "baseVerify (ex_env m) = mock_verify"
  by (simp_all add: ex_env_def)

lemma ex_cache_sel: "nonce (ex_cache bs) = 11" "setValid (ex_cache bs) = bs"
  by (simp_all add: ex_cache_def)

lemma ex_globals_sel:
  "signatureCache (ex_globals bs) = ex_cache [[]]"
  "VerifySignature_signatureCache (ex_globals bs) = ex_cache bs"
  by (simp_all add: ex_globals_def)

lemma ex_globals_upd:
  "(ex_globals bs)\<lparr>VerifySignature_signatureCache := ex_cache bs'\<rparr> = ex_globals bs'"
  by (simp add: ex_globals_def)

lemma ex_cache_upd: "(ex_cache bs)\<lparr>setValid := bs'\<rparr> = ex_cache bs'"
  by (simp add: ex_cache_def)

lemma nMaxCacheSize_ex: "nMaxCacheSize (ex_env m) = m * 1048576"
  by (simp add: nMaxCacheSize_def ex_env_sel)

lemma entry_valid:
  "ComputeEntry (ex_env m) (ex_cache bs) mock_H [1, 2, 3] mock_P =
     49519670787226823230752300166259190307135933054082835784085139434229709832348"
proof -
  have "fold_digest (uint256_bytes 11 @ uint256_bytes mock_H @ mock_P @ [1, 2, 3]) =
     49519670787226823230752300166259190307135933054082835784085139434229709832348"
    by code_simp
  then show ?thesis
    by (simp add: ComputeEntry_message ex_env_sel ex_cache_sel)
qed

lemma entry_invalid:
  "ComputeEntry (ex_env m) (ex_cache bs) mock_H [9, 9, 9] mock_P =
     49519670787226823230752300166259190307135933054082835784085139434229710362545"
proof -
  have "fold_digest (uint256_bytes 11 @ uint256_bytes mock_H @ mock_P @ [9, 9, 9]) =
     49519670787226823230752300166259190307135933054082835784085139434229710362545"
    by code_simp
  then show ?thesis
    by (simp add: ComputeEntry_message ex_env_sel ex_cache_sel)
qed

lemma mock_verify_valid: "mock_verify [1, 2, 3] mock_P mock_H"
  by (simp add: mock_verify_def)

lemma mock_verify_invalid: "\<not> mock_verify [9, 9, 9] mock_P mock_H"
  by (simp add: mock_verify_def)

lemma Set_ex:
  "Set (ex_env 1) rnd (ex_cache [[], [7]]) ex_entry = Some (ex_cache [[ex_entry], [7]])"
proof -
  have "\<not> DynamicUsage (ex_env 1) [[], [7]] > nMaxCacheSize (ex_env 1)"
    by (simp add: ex_env_sel nMaxCacheSize_ex linear_usage_def us_size_def bucket_count_def)
  then have "evict (ex_env 1) rnd (nMaxCacheSize (ex_env 1)) 0 [[], [7]] = Some [[], [7]]"
    by (rule evict_within_bound)
  moreover have "insert_by_hash ex_entry [[], [7]] = [[ex_entry], [7]]"
    by (simp add: insert_by_hash_def CSignatureCacheHasher_def GetCheapHash_def elems_def
        ex_entry_def Let_def numeral_2_eq_2 [symmetric])
  moreover have "\<not> nMaxCacheSize (ex_env 1) \<le> 0"
    by (simp add: nMaxCacheSize_ex)
  ultimately show ?thesis
    by (simp add: Set_def ex_env_sel ex_cache_sel ex_cache_upd)
qed

lemma VerifySignature_ex_store:
  "VerifySignature (ex_env 1) rnd True [1, 2, 3] mock_P mock_H (ex_globals [[], [7]]) =
     (1, Some (True, ex_globals [[ex_entry], [7]]))"
proof -
  have "ex_entry \<notin> elems [[], [7]]"
    by (simp add: elems_def ex_entry_def)
  then show ?thesis
    by (simp add: VerifySignature_def Let_def Get_def us_count_def ex_globals_sel ex_cache_sel
        entry_valid [folded ex_entry_def] ex_env_sel mock_verify_valid Set_ex ex_globals_upd)
qed

lemma length_bucket_keys: "length (bucket_keys b j n) = n"
  by (simp add: bucket_keys_def)

lemma bucket_keys_Suc: "bucket_keys b j (Suc n) = bucket_keys b j n @ [of_nat (j + b * n)]"
  by (simp add: bucket_keys_def)

lemma bucket_keys_member:
  assumes "k \<in> set (bucket_keys b j n)" and "j + b * n < 2 ^ 256"
  shows "\<exists>i<n. unat k = j + b * i"
proof -
  from assms(1) obtain i where i: "i < n" "k = of_nat (j + b * i)"
    by (auto simp: bucket_keys_def)
  have "j + b * i \<le> j + b * n"
    using i(1) by simp
  from this assms(2) have lt: "j + b * i < 2 ^ 256"
    by (rule le_less_trans)
  have "unat (of_nat (j + b * i) :: uint256) = j + b * i"
    by (rule of_nat_inverse [OF refl]) (use lt in simp)
  with i show ?thesis by blast
qed

lemma fair_identity: "0 < n \<Longrightarrow> fair_draws (\<lambda>t. t) n"
  unfolding fair_draws_def GetRand_def
proof (intro allI impI)
  fix t s :: nat
  assume n: "0 < n" and s: "s < n"
  from n have "t \<le> n * t"
    by (cases n) simp_all
  then have "t \<le> n * t + s"
    by (rule trans_le_add1)
  with n s have "t \<le> n * t + s \<and> (if n = 0 then 0 else (n * t + s) mod n) = s"
    by simp
  then show "\<exists>t'\<ge>t. (if n = 0 then 0 else t' mod n) = s"
    by blast
qed

lemma usage_full_store: "linear_usage full_store = 1048528"
  by (simp add: linear_usage_def us_size_def bucket_count_def full_store_def length_bucket_keys)

lemma usage_over_store: "linear_usage over_store = 1048600"
  by (simp add: linear_usage_def us_size_def bucket_count_def over_store_def length_bucket_keys)

lemma new_key_full_store: "16383 \<notin> elems full_store"
proof
  assume "16383 \<in> elems full_store"
  then consider "(16383 :: uint256) \<in> set (bucket_keys 2 0 8192)"
    | "(16383 :: uint256) \<in> set (bucket_keys 2 1 8191)"
    by (auto simp: elems_def full_store_def)
  then show False
  proof cases
    case 1
    from bucket_keys_member [OF 1] obtain i where "unat (16383 :: uint256) = 0 + 2 * i"
      by auto
    then show False by simp presburger
  next
    case 2
    from bucket_keys_member [OF 2] obtain i where "i < 8191" "unat (16383 :: uint256) = 1 + 2 * i"
      by auto
    then show False by simp
  qed
qed

lemma insert_full_store:
  "insert_by_hash 16383 full_store = [bucket_keys 2 0 8192, bucket_keys 2 1 8192]"
proof -
  have keys: "bucket_keys 2 1 8191 @ [16383] = bucket_keys 2 1 8192"
    using bucket_keys_Suc [of 2 1 8191] by simp
  have i: "unat (CSignatureCacheHasher 16383) mod length full_store = Suc 0"
    by (simp add: full_store_def CSignatureCacheHasher_def GetCheapHash_def
        numeral_2_eq_2 [symmetric])
  have upd: "full_store[Suc 0 := full_store ! Suc 0 @ [16383]] =
      [bucket_keys 2 0 8192, bucket_keys 2 1 8191 @ [16383]]"
    by (simp add: full_store_def)
  have ne: "full_store \<noteq> []"
    by (simp add: full_store_def)
  show ?thesis
    by (simp only: insert_by_hash_def Let_def i new_key_full_store ne if_False upd keys)
qed

lemma elems_list_update:
  assumes "i < length bs"
  shows "elems (bs[i := bs ! i @ [k]]) = insert k (elems bs)"
proof -
  have upd: "bs[i := bs ! i @ [k]] = take i bs @ (bs ! i @ [k]) # drop (Suc i) bs"
    using assms by (rule upd_conv_take_nth_drop)
  have "bs = take i bs @ bs ! i # drop (Suc i) bs"
    using assms by (rule id_take_nth_drop)
  then have "elems bs = elems (take i bs) \<union> set (bs ! i) \<union> elems (drop (Suc i) bs)"
    unfolding elems_def by (metis concat.simps(2) concat_append set_append sup_assoc)
  moreover have "elems (bs[i := bs ! i @ [k]]) =
      elems (take i bs) \<union> (set (bs ! i) \<union> {k}) \<union> elems (drop (Suc i) bs)"
    unfolding upd elems_def by (simp add: Un_assoc)
  ultimately show ?thesis by auto
qed

lemma insert_by_hash_contract: "insert_contract insert_by_hash"
  unfolding insert_contract_def
proof (intro allI)
  fix k bs
  show "elems (insert_by_hash k bs) = insert k (elems bs)"
  proof (cases "k \<in> elems bs")
    case True
    then show ?thesis by (auto simp: insert_by_hash_def)
  next
    case False
    show ?thesis
    proof (cases "bs = []")
      case True
      then show ?thesis by (simp add: insert_by_hash_def elems_def)
    next
      case ne: False
      then have "unat (CSignatureCacheHasher k) mod length bs < length bs"
        by simp
      with False ne show ?thesis
        by (simp add: insert_by_hash_def Let_def elems_list_update)
    qed
  qed
qed

lemma VerifySignature_ex_first:
  "VerifySignature (ex_env 1) rnd True [1, 2, 3] mock_P mock_H (ex_globals [[], []]) =
     (1, Some (True, ex_globals [[ex_entry], []]))"
proof -
  have "\<not> DynamicUsage (ex_env 1) [[], []] > nMaxCacheSize (ex_env 1)"
    by (simp add: ex_env_sel nMaxCacheSize_ex linear_usage_def us_size_def bucket_count_def)
  then have "evict (ex_env 1) rnd (nMaxCacheSize (ex_env 1)) 0 [[], []] = Some [[], []]"
    by (rule evict_within_bound)
  moreover have "insert_by_hash ex_entry [[], []] = [[ex_entry], []]"
    by (simp add: insert_by_hash_def CSignatureCacheHasher_def GetCheapHash_def elems_def
        ex_entry_def Let_def numeral_2_eq_2 [symmetric])
  moreover have "\<not> nMaxCacheSize (ex_env 1) \<le> 0"
    by (simp add: nMaxCacheSize_ex)
  ultimately have "Set (ex_env 1) rnd (ex_cache [[], []]) ex_entry = Some (ex_cache [[ex_entry], []])"
    by (simp add: Set_def ex_env_sel ex_cache_sel ex_cache_upd)
  moreover have "ex_entry \<notin> elems [[], []]"
    by (simp add: elems_def)
  ultimately show ?thesis
    by (simp add: VerifySignature_def Let_def Get_def us_count_def ex_globals_sel ex_cache_sel
        entry_valid [folded ex_entry_def] ex_env_sel mock_verify_valid ex_globals_upd)
qed

lemma entry_shared:
  "ComputeEntry (ex_env m) (ex_cache bs) mock_H (mock_P @ [1, 2, 3]) [] = ex_entry"
proof -
  have "ComputeEntry (ex_env m) (ex_cache bs) mock_H (mock_P @ [1, 2, 3]) [] =
      ComputeEntry (ex_env m) (ex_cache bs) mock_H [1, 2, 3] mock_P"
    by (simp add: ComputeEntry_message)
  then show ?thesis
    by (simp add: entry_valid ex_entry_def)
qed

section \<open>Lookup\<close>

text \<open>
  C9. For every cache object and every entry, \<open>Get\<close> answers true exactly when the
  entry is an element of \<open>setValid\<close>, and the cache object it leaves is the one it
  found: the nonce, the set with its bucket layout, and hence any memory estimate
  computed from the set.
\<close>

theorem Get_member_and_frame:
  "fst (Get c entry) = (entry \<in> elems (setValid c)) \<and> snd (Get c entry) = c
     \<and> DynamicUsage E (setValid (snd (Get c entry))) = DynamicUsage E (setValid c)"
  by (simp add: Get_def us_count_def)

section \<open>No negative caching\<close>

text \<open>
  C2, as the code has it. A call on a triple that the base check rejects and whose
  entry is not in the set when the call is made returns false after exactly one call of
  the base check, whatever \<open>store\<close> and the random draws are, and leaves the whole
  program state, the set with it, as it was; the entry is still absent, so the next call
  on the triple does the same again.
\<close>

theorem no_negative_caching_on_miss:
  assumes "\<not> baseVerify E vchSig pubkey sighash"
    and "ComputeEntry E (VerifySignature_signatureCache g) sighash vchSig pubkey
           \<notin> elems (setValid (VerifySignature_signatureCache g))"
  shows "VerifySignature E rnd store vchSig pubkey sighash g = (1, Some (False, g))"
  using assms by (simp add: VerifySignature_def Get_def us_count_def)

theorem no_negative_caching_on_miss_witness:
  "\<not> baseVerify (ex_env 1) [9, 9, 9] mock_P mock_H
   \<and> ComputeEntry (ex_env 1) (VerifySignature_signatureCache (ex_globals [[ex_entry], []]))
        mock_H [9, 9, 9] mock_P
       \<notin> elems (setValid (VerifySignature_signatureCache (ex_globals [[ex_entry], []])))
   \<and> VerifySignature (ex_env 1) (\<lambda>t. t) True [9, 9, 9] mock_P mock_H (ex_globals [[ex_entry], []])
       = (1, Some (False, ex_globals [[ex_entry], []]))
   \<and> VerifySignature (ex_env 1) (\<lambda>t. t) False [9, 9, 9] mock_P mock_H (ex_globals [[ex_entry], []])
       = (1, Some (False, ex_globals [[ex_entry], []]))"
proof -
  have invalid: "\<not> baseVerify (ex_env 1) [9, 9, 9] mock_P mock_H"
    by (simp add: ex_env_sel mock_verify_invalid)
  have absent: "ComputeEntry (ex_env 1) (VerifySignature_signatureCache (ex_globals [[ex_entry], []]))
        mock_H [9, 9, 9] mock_P
       \<notin> elems (setValid (VerifySignature_signatureCache (ex_globals [[ex_entry], []])))"
    by (simp add: ex_globals_sel ex_cache_sel entry_invalid elems_def ex_entry_def)
  from no_negative_caching_on_miss [OF invalid absent, of "\<lambda>t. t" True]
    no_negative_caching_on_miss [OF invalid absent, of "\<lambda>t. t" False]
    invalid absent
  show ?thesis
    by blast
qed

text \<open>
  Against C2 as stated: \<open>ComputeEntry\<close> writes the public key's bytes and the
  signature's bytes one after the other, so the triple with the signature
  \<open>P @ [1, 2, 3]\<close> and a key of no bytes has the entry of the accepted triple, whatever
  the digest is. After one accepted call from the empty set the entry is in the set; the
  base check rejects the other triple, and yet the call on it returns true with no base
  check, and with \<open>store\<close> false erases the entry.
\<close>

theorem no_negative_caching_counterexample:
  "run_calls (ex_env 1) (ex_globals [[], []]) [(\<lambda>t. t, True, [1, 2, 3], mock_P, mock_H)]
       = Some (ex_globals [[ex_entry], []])
   \<and> \<not> baseVerify (ex_env 1) (mock_P @ [1, 2, 3]) [] mock_H
   \<and> VerifySignature (ex_env 1) (\<lambda>t. t) True (mock_P @ [1, 2, 3]) [] mock_H
        (ex_globals [[ex_entry], []])
       = (0, Some (True, ex_globals [[ex_entry], []]))
   \<and> VerifySignature (ex_env 1) (\<lambda>t. t) False (mock_P @ [1, 2, 3]) [] mock_H
        (ex_globals [[ex_entry], []])
       = (0, Some (True, ex_globals [[], []]))"
proof -
  have history: "run_calls (ex_env 1) (ex_globals [[], []])
      [(\<lambda>t. t, True, [1, 2, 3], mock_P, mock_H)] = Some (ex_globals [[ex_entry], []])"
    by (simp add: VerifySignature_ex_first)
  have invalid: "\<not> baseVerify (ex_env 1) (mock_P @ [1, 2, 3]) [] mock_H"
    by (simp add: ex_env_sel mock_verify_def mock_P_def)
  have hit: "ex_entry \<in> elems [[ex_entry], []]"
    by (simp add: elems_def)
  have storing: "VerifySignature (ex_env 1) (\<lambda>t. t) True (mock_P @ [1, 2, 3]) [] mock_H
        (ex_globals [[ex_entry], []]) = (0, Some (True, ex_globals [[ex_entry], []]))"
    using hit
    by (simp add: VerifySignature_def Let_def Get_def us_count_def ex_globals_sel ex_cache_sel
        entry_shared ex_globals_upd)
  have "us_erase ex_entry [[ex_entry], []] = [[], []]"
    by (simp add: us_erase_def)
  with hit have purging: "VerifySignature (ex_env 1) (\<lambda>t. t) False (mock_P @ [1, 2, 3]) [] mock_H
        (ex_globals [[ex_entry], []]) = (0, Some (True, ex_globals [[], []]))"
    by (simp add: VerifySignature_def Let_def Get_def us_count_def ex_globals_sel ex_cache_sel
        entry_shared Erase_def ex_cache_upd ex_globals_upd)
  from history invalid storing purging show ?thesis
    by blast
qed

section \<open>A hit that does not store\<close>

text \<open>
  C4. When the entry derived from the inputs is in the set, a call with \<open>store\<close>
  false returns true without calling the base check and leaves the set with the entry
  erased; the entry is then absent, and an identical call with \<open>store\<close> true calls
  the base check once more.
\<close>

theorem nonstoring_hit_purges:
  assumes "entry = ComputeEntry E (VerifySignature_signatureCache g) sighash vchSig pubkey"
    and "entry \<in> elems (setValid (VerifySignature_signatureCache g))"
    and "g' = g\<lparr>VerifySignature_signatureCache := Erase (VerifySignature_signatureCache g) entry\<rparr>"
  shows "VerifySignature E rnd False vchSig pubkey sighash g = (0, Some (True, g'))
     \<and> entry \<notin> elems (setValid (VerifySignature_signatureCache g'))
     \<and> fst (VerifySignature E rnd' True vchSig pubkey sighash g') = 1"
proof -
  have first: "VerifySignature E rnd False vchSig pubkey sighash g = (0, Some (True, g'))"
    using assms by (simp add: VerifySignature_def Get_def us_count_def Let_def)
  have gone: "entry \<notin> elems (setValid (VerifySignature_signatureCache g'))"
    using assms(3) by (simp add: Erase_def elems_us_erase)
  have same: "ComputeEntry E (VerifySignature_signatureCache g') sighash vchSig pubkey = entry"
    using assms(1,3) by (simp add: ComputeEntry_def Erase_def)
  have again: "fst (VerifySignature E rnd' True vchSig pubkey sighash g') = 1"
    using gone same by (simp add: VerifySignature_def Get_def us_count_def Let_def)
  from first gone again show ?thesis by simp
qed

theorem nonstoring_hit_purges_witness:
  "ex_entry = ComputeEntry (ex_env 1) (VerifySignature_signatureCache (ex_globals [[ex_entry], [7]]))
      mock_H [1, 2, 3] mock_P
   \<and> ex_entry \<in> elems (setValid (VerifySignature_signatureCache (ex_globals [[ex_entry], [7]])))
   \<and> VerifySignature (ex_env 1) (\<lambda>t. t) False [1, 2, 3] mock_P mock_H (ex_globals [[ex_entry], [7]])
       = (0, Some (True, ex_globals [[], [7]]))
   \<and> ex_entry \<notin> elems (setValid (VerifySignature_signatureCache (ex_globals [[], [7]])))
   \<and> fst (VerifySignature (ex_env 1) (\<lambda>t. t) True [1, 2, 3] mock_P mock_H (ex_globals [[], [7]])) = 1"
proof -
  let ?g = "ex_globals [[ex_entry], [7]]"
  have a: "ex_entry = ComputeEntry (ex_env 1) (VerifySignature_signatureCache ?g)
      mock_H [1, 2, 3] mock_P"
    by (simp add: ex_entry_def ex_globals_sel entry_valid)
  have b: "ex_entry \<in> elems (setValid (VerifySignature_signatureCache ?g))"
    by (simp add: ex_globals_sel ex_cache_sel elems_def)
  have c: "ex_globals [[], [7]] =
      ?g\<lparr>VerifySignature_signatureCache := Erase (VerifySignature_signatureCache ?g) ex_entry\<rparr>"
    by (simp add: ex_globals_sel ex_cache_sel Erase_def us_erase_def ex_cache_upd ex_globals_upd
        ex_entry_def)
  show ?thesis
    using a b nonstoring_hit_purges [OF a b c, of "\<lambda>t. t" "\<lambda>t. t"] by simp
qed

section \<open>The fingerprint\<close>

text \<open>
  C7. \<open>ComputeEntry\<close> is the specification's keyed digest: the digest of the 32
  bytes of the nonce, followed by the signature hash, the public key's bytes and the
  signature's bytes, a 256-bit value that depends on nothing else. No call of
  \<open>VerifySignature\<close> that returns changes the nonce, so the cache derives the same
  entry for the same inputs before and after it.
\<close>

theorem ComputeEntry_keyed_digest:
  "ComputeEntry E c hash vchSig pubkey =
     spec_compute (sha256 E) (uint256_bytes (nonce c)) (uint256_bytes hash) pubkey vchSig
   \<and> size (ComputeEntry E c hash vchSig pubkey) = 256
   \<and> length (uint256_bytes (nonce c)) = 32
   \<and> (\<forall>r g'. snd (VerifySignature E rnd store vchSig' pubkey' sighash' g) = Some (r, g')
        \<longrightarrow> ComputeEntry E (VerifySignature_signatureCache g') hash vchSig pubkey
            = ComputeEntry E (VerifySignature_signatureCache g) hash vchSig pubkey)"
  by (simp add: ComputeEntry_message spec_compute_def word_size uint256_bytes_length
      VerifySignature_nonce)

theorem ComputeEntry_keyed_digest_witness:
  "snd (VerifySignature (ex_env 1) (\<lambda>t. t) True [1, 2, 3] mock_P mock_H (ex_globals [[], [7]]))
     = Some (True, ex_globals [[ex_entry], [7]])
   \<and> ComputeEntry (ex_env 1) (VerifySignature_signatureCache (ex_globals [[ex_entry], [7]]))
        mock_H [9, 9, 9] mock_P
     = ComputeEntry (ex_env 1) (VerifySignature_signatureCache (ex_globals [[], [7]]))
        mock_H [9, 9, 9] mock_P
   \<and> ComputeEntry (ex_env 1) (ex_cache [[], [7]]) mock_H [9, 9, 9] mock_P =
     spec_compute fold_digest (uint256_bytes 11) (uint256_bytes mock_H) mock_P [9, 9, 9]"
proof -
  have ret: "snd (VerifySignature (ex_env 1) (\<lambda>t. t) True [1, 2, 3] mock_P mock_H
      (ex_globals [[], [7]])) = Some (True, ex_globals [[ex_entry], [7]])"
    by (simp add: VerifySignature_ex_store)
  note th = ComputeEntry_keyed_digest [of "ex_env 1" "ex_cache [[], [7]]" mock_H "[9, 9, 9]"
        mock_P "\<lambda>t. t" True "[1, 2, 3]" mock_P mock_H "ex_globals [[], [7]]"]
  from th ret have same:
    "ComputeEntry (ex_env 1) (VerifySignature_signatureCache (ex_globals [[ex_entry], [7]]))
        mock_H [9, 9, 9] mock_P
     = ComputeEntry (ex_env 1) (VerifySignature_signatureCache (ex_globals [[], [7]]))
        mock_H [9, 9, 9] mock_P"
    by blast
  from th have "ComputeEntry (ex_env 1) (ex_cache [[], [7]]) mock_H [9, 9, 9] mock_P =
     spec_compute fold_digest (uint256_bytes 11) (uint256_bytes mock_H) mock_P [9, 9, 9]"
    by (simp add: ex_env_sel ex_cache_sel)
  with ret same show ?thesis
    by simp
qed

text \<open>
  C8. Two cache objects with different nonces derive different entries for one triple,
  unless the two messages digested, which differ, collide under the digest.
\<close>

theorem secret_separation:
  assumes "nonce c1 \<noteq> nonce c2"
    and "\<not> collision (sha256 E)
           (uint256_bytes (nonce c1) @ uint256_bytes hash @ pubkey @ vchSig)
           (uint256_bytes (nonce c2) @ uint256_bytes hash @ pubkey @ vchSig)"
  shows "ComputeEntry E c1 hash vchSig pubkey \<noteq> ComputeEntry E c2 hash vchSig pubkey"
proof
  assume same: "ComputeEntry E c1 hash vchSig pubkey = ComputeEntry E c2 hash vchSig pubkey"
  have "uint256_bytes (nonce c1) \<noteq> uint256_bytes (nonce c2)"
    using assms(1) uint256_bytes_inj by blast
  then have "uint256_bytes (nonce c1) @ uint256_bytes hash @ pubkey @ vchSig
      \<noteq> uint256_bytes (nonce c2) @ uint256_bytes hash @ pubkey @ vchSig"
    by simp
  with same assms(2) show False
    by (simp add: collision_def ComputeEntry_message)
qed

theorem secret_separation_witness:
  "nonce (ex_cache [[]]) \<noteq> nonce ((ex_cache [[]])\<lparr>nonce := 12\<rparr>)
   \<and> \<not> collision (sha256 (ex_env 1))
           (uint256_bytes (nonce (ex_cache [[]])) @ uint256_bytes mock_H @ mock_P @ [1, 2, 3])
           (uint256_bytes (nonce ((ex_cache [[]])\<lparr>nonce := 12\<rparr>)) @ uint256_bytes mock_H @ mock_P @ [1, 2, 3])
   \<and> ComputeEntry (ex_env 1) (ex_cache [[]]) mock_H [1, 2, 3] mock_P
       \<noteq> ComputeEntry (ex_env 1) ((ex_cache [[]])\<lparr>nonce := 12\<rparr>) mock_H [1, 2, 3] mock_P"
proof -
  have a: "nonce (ex_cache [[]]) \<noteq> nonce ((ex_cache [[]])\<lparr>nonce := 12\<rparr>)"
    by (simp add: ex_cache_def)
  have "fold_digest (uint256_bytes 11 @ uint256_bytes mock_H @ mock_P @ [1, 2, 3])
      \<noteq> fold_digest (uint256_bytes 12 @ uint256_bytes mock_H @ mock_P @ [1, 2, 3])"
    by code_simp
  then have b: "\<not> collision (sha256 (ex_env 1))
           (uint256_bytes (nonce (ex_cache [[]])) @ uint256_bytes mock_H @ mock_P @ [1, 2, 3])
           (uint256_bytes (nonce ((ex_cache [[]])\<lparr>nonce := 12\<rparr>)) @ uint256_bytes mock_H @ mock_P @ [1, 2, 3])"
    by (simp add: collision_def ex_env_sel ex_cache_def)
  from secret_separation [OF a b] a b show ?thesis
    by blast
qed

section \<open>The two cache objects\<close>

text \<open>
  C10. \<open>VerifySignature\<close> works on its static local cache only: replacing the
  namespace-scope \<open>signatureCache\<close> by any other cache object changes neither the
  number of base checks, nor whether the call returns, nor its value, nor the static
  local cache it leaves; and a call that returns leaves the namespace-scope object as it
  found it.
\<close>

theorem namespace_cache_unused:
  "VerifySignature E rnd store vchSig pubkey sighash (g\<lparr>signatureCache := x\<rparr>) =
     (case VerifySignature E rnd store vchSig pubkey sighash g of
        (n, out) \<Rightarrow> (n, map_option (\<lambda>(r, g'). (r, g'\<lparr>signatureCache := x\<rparr>)) out))
   \<and> (\<forall>r g'. snd (VerifySignature E rnd store vchSig pubkey sighash g) = Some (r, g')
        \<longrightarrow> signatureCache g' = signatureCache g)"
proof -
  let ?S = "Set E rnd (VerifySignature_signatureCache g)
        (ComputeEntry E (VerifySignature_signatureCache g) sighash vchSig pubkey)"
  have eq: "VerifySignature E rnd store vchSig pubkey sighash (g\<lparr>signatureCache := x\<rparr>) =
     (case VerifySignature E rnd store vchSig pubkey sighash g of
        (n, out) \<Rightarrow> (n, map_option (\<lambda>(r, g'). (r, g'\<lparr>signatureCache := x\<rparr>)) out))"
    by (cases ?S) (simp_all add: VerifySignature_def Get_def Let_def)
  have keep: "signatureCache g' = signatureCache g"
    if "snd (VerifySignature E rnd store vchSig pubkey sighash g) = Some (r, g')" for r g'
    using that by (cases ?S) (auto simp: VerifySignature_def Get_def Let_def split: if_splits)
  from eq keep show ?thesis
    by blast
qed

theorem namespace_cache_unused_witness:
  "snd (VerifySignature (ex_env 1) (\<lambda>t. t) True [1, 2, 3] mock_P mock_H (ex_globals [[], [7]]))
     = Some (True, ex_globals [[ex_entry], [7]])
   \<and> signatureCache (ex_globals [[ex_entry], [7]]) = signatureCache (ex_globals [[], [7]])
   \<and> VerifySignature (ex_env 1) (\<lambda>t. t) True [1, 2, 3] mock_P mock_H
        ((ex_globals [[], [7]])\<lparr>signatureCache := ex_cache [[ex_entry], [4]]\<rparr>)
     = (1, Some (True, (ex_globals [[ex_entry], [7]])\<lparr>signatureCache := ex_cache [[ex_entry], [4]]\<rparr>))"
proof -
  have ret: "VerifySignature (ex_env 1) (\<lambda>t. t) True [1, 2, 3] mock_P mock_H
      (ex_globals [[], [7]]) = (1, Some (True, ex_globals [[ex_entry], [7]]))"
    by (rule VerifySignature_ex_store)
  show ?thesis
    using namespace_cache_unused [where E = "ex_env 1" and rnd = "\<lambda>t. t" and store = True
        and vchSig = "[1, 2, 3]" and pubkey = mock_P and sighash = mock_H
        and g = "ex_globals [[], [7]]" and x = "ex_cache [[ex_entry], [4]]"]
    by (auto simp: ret)
qed

section \<open>The bound on the memory estimate\<close>

text \<open>
  C3, as the code has it. When \<open>Set\<close> returns with a non-zero byte bound, the set it
  leaves is the result of inserting the entry into a set whose memory estimate is within
  the bound, and which has the buckets and no keys but those of the set \<open>Set\<close> found:
  the bound holds before the final \<open>insert\<close>, not after it. The estimate after the
  insertion may exceed the bound.
\<close>

theorem Set_bound_before_insert:
  assumes "Set E rnd c entry = Some c'" and "nMaxCacheSize E \<noteq> 0"
  shows "\<exists>bs. setValid c' = us_insert E entry bs
           \<and> DynamicUsage E bs \<le> nMaxCacheSize E
           \<and> elems bs \<subseteq> elems (setValid c)
           \<and> bucket_count bs = bucket_count (setValid c)"
proof -
  from Set_result [OF assms] obtain bs where
    c': "c' = c\<lparr>setValid := us_insert E entry bs\<rparr>" and
    ev: "evict E rnd (nMaxCacheSize E) 0 (setValid c) = Some bs"
    by blast
  from evict_result [OF ev] c' show ?thesis
    by (auto simp: bucket_count_def)
qed

theorem Set_bound_before_insert_witness:
  "nMaxCacheSize (ex_env 1) \<noteq> 0
   \<and> nMaxCacheSize (ex_env 1) < DynamicUsage (ex_env 1) (setValid (ex_cache over_store))
   \<and> (\<exists>c'. Set (ex_env 1) (\<lambda>t. t) (ex_cache over_store) ex_entry = Some c'
        \<and> (\<exists>bs. setValid c' = us_insert (ex_env 1) ex_entry bs
           \<and> DynamicUsage (ex_env 1) bs \<le> nMaxCacheSize (ex_env 1)
           \<and> elems bs \<subseteq> elems (setValid (ex_cache over_store))
           \<and> bucket_count bs = bucket_count (setValid (ex_cache over_store))))"
proof -
  have pos: "nMaxCacheSize (ex_env 1) \<noteq> 0"
    by (simp add: nMaxCacheSize_ex)
  have over: "nMaxCacheSize (ex_env 1) < DynamicUsage (ex_env 1) (setValid (ex_cache over_store))"
    by (simp add: nMaxCacheSize_ex ex_env_sel ex_cache_sel usage_over_store)
  have "fair_draws (\<lambda>t. t) (bucket_count (setValid (ex_cache over_store)))"
    by (simp add: fair_identity ex_cache_sel bucket_count_def over_store_def)
  moreover have "\<not> DynamicUsage (ex_env 1)
      (replicate (bucket_count (setValid (ex_cache over_store))) []) > nMaxCacheSize (ex_env 1)"
    by (simp add: ex_cache_sel bucket_count_def over_store_def ex_env_sel nMaxCacheSize_ex
        linear_usage_def us_size_def)
  ultimately obtain c' where
    ret: "Set (ex_env 1) (\<lambda>t. t) (ex_cache over_store) ex_entry = Some c'"
    using Set_returns by blast
  from Set_bound_before_insert [OF ret pos] pos over ret show ?thesis
    by blast
qed

text \<open>
  Against C3 as stated: one mebibyte admits an entry, the set of 16383 keys is within
  it, so that \<open>Set\<close> evicts nothing and inserts the new key, and the estimate of the
  set it leaves is above the bound.
\<close>

theorem Set_bound_counterexample:
  "DynamicUsage (ex_env 1) [[], [16383]] \<le> nMaxCacheSize (ex_env 1)
   \<and> DynamicUsage (ex_env 1) (setValid (ex_cache full_store)) \<le> nMaxCacheSize (ex_env 1)
   \<and> Set (ex_env 1) (\<lambda>t. t) (ex_cache full_store) 16383
       = Some (ex_cache [bucket_keys 2 0 8192, bucket_keys 2 1 8192])
   \<and> \<not> DynamicUsage (ex_env 1) (setValid (ex_cache [bucket_keys 2 0 8192, bucket_keys 2 1 8192]))
         \<le> nMaxCacheSize (ex_env 1)"
proof -
  have one: "DynamicUsage (ex_env 1) [[], [16383]] \<le> nMaxCacheSize (ex_env 1)"
    by (simp add: ex_env_sel nMaxCacheSize_ex linear_usage_def us_size_def bucket_count_def)
  have before: "DynamicUsage (ex_env 1) (setValid (ex_cache full_store)) \<le> nMaxCacheSize (ex_env 1)"
    by (simp add: ex_env_sel ex_cache_sel nMaxCacheSize_ex usage_full_store)
  then have "evict (ex_env 1) (\<lambda>t. t) (nMaxCacheSize (ex_env 1)) 0 full_store = Some full_store"
    by (intro evict_within_bound) (simp add: ex_cache_sel not_less)
  moreover have "\<not> nMaxCacheSize (ex_env 1) \<le> 0"
    by (simp add: nMaxCacheSize_ex)
  ultimately have run: "Set (ex_env 1) (\<lambda>t. t) (ex_cache full_store) 16383
       = Some (ex_cache [bucket_keys 2 0 8192, bucket_keys 2 1 8192])"
    by (simp add: Set_def ex_cache_sel ex_env_sel insert_full_store ex_cache_upd)
  have after: "\<not> DynamicUsage (ex_env 1)
      (setValid (ex_cache [bucket_keys 2 0 8192, bucket_keys 2 1 8192])) \<le> nMaxCacheSize (ex_env 1)"
    by (simp add: ex_env_sel ex_cache_sel nMaxCacheSize_ex linear_usage_def us_size_def
        bucket_count_def length_bucket_keys)
  from one before run after show ?thesis
    by blast
qed

section \<open>Termination of the eviction loop\<close>

text \<open>
  C6, as the code has it. \<open>Set\<close> returns, for every set and every bound, when the
  random draws are fair for the number of buckets and the estimate of the emptied set
  (the same buckets, no keys) is within the bound: each draw of a bucket that holds a
  key erases one, and the loop exits once the estimate is within the bound, at the
  latest when no key is left.
\<close>

theorem Set_returns_under_fair_draws:
  assumes "fair_draws rnd (bucket_count (setValid c))"
    and "DynamicUsage E (replicate (bucket_count (setValid c)) []) \<le> nMaxCacheSize E"
  shows "\<exists>c'. Set E rnd c entry = Some c'"
  using assms by (intro Set_returns) (simp_all add: not_less)

theorem Set_returns_under_fair_draws_witness:
  "fair_draws (\<lambda>t. t) (bucket_count (setValid (ex_cache over_store)))
   \<and> DynamicUsage (ex_env 1) (replicate (bucket_count (setValid (ex_cache over_store))) [])
       \<le> nMaxCacheSize (ex_env 1)
   \<and> nMaxCacheSize (ex_env 1) < DynamicUsage (ex_env 1) (setValid (ex_cache over_store))
   \<and> (\<exists>c'. Set (ex_env 1) (\<lambda>t. t) (ex_cache over_store) ex_entry = Some c')"
proof -
  have fair: "fair_draws (\<lambda>t. t) (bucket_count (setValid (ex_cache over_store)))"
    by (simp add: fair_identity ex_cache_sel bucket_count_def over_store_def)
  have empty: "DynamicUsage (ex_env 1)
      (replicate (bucket_count (setValid (ex_cache over_store))) []) \<le> nMaxCacheSize (ex_env 1)"
    by (simp add: ex_cache_sel bucket_count_def over_store_def ex_env_sel nMaxCacheSize_ex
        linear_usage_def us_size_def)
  have over: "nMaxCacheSize (ex_env 1) < DynamicUsage (ex_env 1) (setValid (ex_cache over_store))"
    by (simp add: nMaxCacheSize_ex ex_env_sel ex_cache_sel usage_over_store)
  from Set_returns_under_fair_draws [OF fair empty] fair empty over show ?thesis
    by blast
qed

text \<open>
  Against C6 as stated: the option is positive, the bound is one mebibyte, the estimate
  of the set is above it, and every draw selects the third bucket, which is empty. No
  key is ever erased and the loop does not exit.
\<close>

theorem eviction_loop_counterexample:
  "0 < sint (maxsigcachesize (ex_env 1))
   \<and> nMaxCacheSize (ex_env 1) = 1048576
   \<and> Set (ex_env 1) (\<lambda>t. 2) (ex_cache over_store) ex_entry = None"
proof -
  have over: "nMaxCacheSize (ex_env 1) < DynamicUsage (ex_env 1) over_store"
    by (simp add: nMaxCacheSize_ex ex_env_sel usage_over_store)
  have miss: "\<forall>t. us_begin over_store (GetRand (\<lambda>t. 2) t (bucket_count over_store)) = []"
    by (simp add: GetRand_def bucket_count_def us_begin_def over_store_def)
  have "evict (ex_env 1) (\<lambda>t. 2) (nMaxCacheSize (ex_env 1)) 0 over_store = None"
    using over miss by (rule evict_stuck)
  then have "Set (ex_env 1) (\<lambda>t. 2) (ex_cache over_store) ex_entry = None"
    by (simp add: Set_def nMaxCacheSize_ex ex_cache_sel)
  then show ?thesis
    by (simp add: nMaxCacheSize_ex ex_env_sel)
qed

section \<open>A non-positive size option\<close>

text \<open>
  C5. With the option \<open>-maxsigcachesize\<close> at \<open>-1\<close> the product with
  \<open>(size_t) 1 << 20\<close> is \<open>2 ^ 64 - 2 ^ 20\<close> in \<open>size_t\<close>, the test
  \<open>nMaxCacheSize <= 0\<close> fails, and \<open>Set\<close> inserts the entry, whatever the random
  draws: the set has changed and \<open>Get\<close> finds the entry.
\<close>

theorem Set_negative_option_inserts:
  "sint (maxsigcachesize (ex_env (- 1))) = - 1
   \<and> nMaxCacheSize (ex_env (- 1)) = 18446744073708503040
   \<and> Set (ex_env (- 1)) rnd (ex_cache [[], [7]]) ex_entry = Some (ex_cache [[ex_entry], [7]])
   \<and> ex_cache [[ex_entry], [7]] \<noteq> ex_cache [[], [7]]
   \<and> fst (Get (ex_cache [[ex_entry], [7]]) ex_entry)"
proof -
  have n: "nMaxCacheSize (ex_env (- 1)) = 18446744073708503040"
    by (simp add: nMaxCacheSize_ex)
  have "\<not> DynamicUsage (ex_env (- 1)) [[], [7]] > nMaxCacheSize (ex_env (- 1))"
    by (simp add: n ex_env_sel linear_usage_def us_size_def bucket_count_def)
  then have "evict (ex_env (- 1)) rnd (nMaxCacheSize (ex_env (- 1))) 0 [[], [7]] = Some [[], [7]]"
    by (rule evict_within_bound)
  moreover have "insert_by_hash ex_entry [[], [7]] = [[ex_entry], [7]]"
    by (simp add: insert_by_hash_def CSignatureCacheHasher_def GetCheapHash_def elems_def
        ex_entry_def Let_def numeral_2_eq_2 [symmetric])
  ultimately have run: "Set (ex_env (- 1)) rnd (ex_cache [[], [7]]) ex_entry
      = Some (ex_cache [[ex_entry], [7]])"
    by (simp add: Set_def n ex_env_sel ex_cache_sel ex_cache_upd)
  have "sint (maxsigcachesize (ex_env (- 1))) = - 1"
    by (simp add: ex_env_sel)
  moreover have "ex_cache [[ex_entry], [7]] \<noteq> ex_cache [[], [7]]"
    by (simp add: ex_cache_def)
  moreover have "fst (Get (ex_cache [[ex_entry], [7]]) ex_entry)"
    by (simp add: Get_def us_count_def elems_def ex_cache_sel)
  ultimately show ?thesis
    using n run by blast
qed

section \<open>A repeated call\<close>

text \<open>
  C1, as the code has it. For a triple the base check accepts, whose entry is not yet in
  the set, with a non-zero byte bound and an eviction loop that exits with the set
  \<open>bs\<close>: the call with \<open>store\<close> true makes exactly one base check and returns
  true, leaving the entry inserted into \<open>bs\<close>; the identical second call returns
  true with no base check and leaves the state as it is. The container's \<open>insert\<close>
  is assumed to add the key.
\<close>

theorem repeat_hit_no_reverification:
  assumes valid: "baseVerify E vchSig pubkey sighash"
    and entry: "entry = ComputeEntry E (VerifySignature_signatureCache g) sighash vchSig pubkey"
    and fresh: "entry \<notin> elems (setValid (VerifySignature_signatureCache g))"
    and enabled: "nMaxCacheSize E \<noteq> 0"
    and ins: "insert_contract (us_insert E)"
    and exits: "evict E rnd (nMaxCacheSize E) 0 (setValid (VerifySignature_signatureCache g)) = Some bs"
    and g1: "g1 = g\<lparr>VerifySignature_signatureCache :=
              (VerifySignature_signatureCache g)\<lparr>setValid := us_insert E entry bs\<rparr>\<rparr>"
  shows "VerifySignature E rnd True vchSig pubkey sighash g = (1, Some (True, g1))
     \<and> VerifySignature E rnd' True vchSig pubkey sighash g1 = (0, Some (True, g1))"
proof -
  let ?c = "VerifySignature_signatureCache g"
  from enabled have nz: "\<not> nMaxCacheSize E \<le> 0"
    by simp
  have set: "Set E rnd ?c entry = Some (?c\<lparr>setValid := us_insert E entry bs\<rparr>)"
    using nz exits by (simp add: Set_def)
  have first: "VerifySignature E rnd True vchSig pubkey sighash g = (1, Some (True, g1))"
    using valid fresh set g1 unfolding entry
    by (simp add: VerifySignature_def Get_def us_count_def Let_def)
  have same: "ComputeEntry E (VerifySignature_signatureCache g1) sighash vchSig pubkey = entry"
    using entry g1 by (simp add: ComputeEntry_def)
  have "entry \<in> elems (us_insert E entry bs)"
    using ins by (simp add: insert_contract_def)
  then have hit: "entry \<in> elems (setValid (VerifySignature_signatureCache g1))"
    using g1 by simp
  have second: "VerifySignature E rnd' True vchSig pubkey sighash g1 = (0, Some (True, g1))"
    using hit same by (simp add: VerifySignature_def Get_def us_count_def Let_def)
  from first second show ?thesis
    by simp
qed

theorem repeat_hit_no_reverification_witness:
  "baseVerify (ex_env 1) [1, 2, 3] mock_P mock_H
   \<and> ex_entry = ComputeEntry (ex_env 1) (VerifySignature_signatureCache (ex_globals [[], [7]]))
        mock_H [1, 2, 3] mock_P
   \<and> ex_entry \<notin> elems (setValid (VerifySignature_signatureCache (ex_globals [[], [7]])))
   \<and> nMaxCacheSize (ex_env 1) \<noteq> 0
   \<and> insert_contract (us_insert (ex_env 1))
   \<and> evict (ex_env 1) (\<lambda>t. t) (nMaxCacheSize (ex_env 1)) 0
        (setValid (VerifySignature_signatureCache (ex_globals [[], [7]]))) = Some [[], [7]]
   \<and> VerifySignature (ex_env 1) (\<lambda>t. t) True [1, 2, 3] mock_P mock_H (ex_globals [[], [7]])
       = (1, Some (True, ex_globals [[ex_entry], [7]]))
   \<and> VerifySignature (ex_env 1) (\<lambda>t. 0) True [1, 2, 3] mock_P mock_H (ex_globals [[ex_entry], [7]])
       = (0, Some (True, ex_globals [[ex_entry], [7]]))"
proof -
  let ?g = "ex_globals [[], [7]]"
  have valid: "baseVerify (ex_env 1) [1, 2, 3] mock_P mock_H"
    by (simp add: ex_env_sel mock_verify_valid)
  have entry: "ex_entry = ComputeEntry (ex_env 1) (VerifySignature_signatureCache ?g)
        mock_H [1, 2, 3] mock_P"
    by (simp add: ex_entry_def ex_globals_sel entry_valid)
  have fresh: "ex_entry \<notin> elems (setValid (VerifySignature_signatureCache ?g))"
    by (simp add: ex_globals_sel ex_cache_sel elems_def ex_entry_def)
  have enabled: "nMaxCacheSize (ex_env 1) \<noteq> 0"
    by (simp add: nMaxCacheSize_ex)
  have ins: "insert_contract (us_insert (ex_env 1))"
    by (simp add: ex_env_sel insert_by_hash_contract)
  have "\<not> DynamicUsage (ex_env 1) [[], [7]] > nMaxCacheSize (ex_env 1)"
    by (simp add: ex_env_sel nMaxCacheSize_ex linear_usage_def us_size_def bucket_count_def)
  then have exits: "evict (ex_env 1) (\<lambda>t. t) (nMaxCacheSize (ex_env 1)) 0
        (setValid (VerifySignature_signatureCache ?g)) = Some [[], [7]]"
    by (simp add: ex_globals_sel ex_cache_sel evict_within_bound)
  have "insert_by_hash ex_entry [[], [7]] = [[ex_entry], [7]]"
    by (simp add: insert_by_hash_def CSignatureCacheHasher_def GetCheapHash_def elems_def
        ex_entry_def Let_def numeral_2_eq_2 [symmetric])
  then have g1: "ex_globals [[ex_entry], [7]] = ?g\<lparr>VerifySignature_signatureCache :=
      (VerifySignature_signatureCache ?g)\<lparr>setValid := us_insert (ex_env 1) ex_entry [[], [7]]\<rparr>\<rparr>"
    by (simp add: ex_env_sel ex_globals_sel ex_cache_upd ex_globals_upd)
  from repeat_hit_no_reverification [OF valid entry fresh enabled ins exits g1, of "\<lambda>t. 0"]
    valid entry fresh enabled ins exits
  show ?thesis
    by blast
qed

text \<open>
  Against C1 as stated: with the option at \<open>0\<close>, \<open>Set\<close> returns at once, the
  first call leaves the state as it found it, and the identical second call makes the
  base check again.
\<close>

theorem repeat_hit_counterexample:
  "baseVerify (ex_env 0) [1, 2, 3] mock_P mock_H
   \<and> VerifySignature (ex_env 0) (\<lambda>t. t) True [1, 2, 3] mock_P mock_H (ex_globals [[], [7]])
       = (1, Some (True, ex_globals [[], [7]]))
   \<and> fst (VerifySignature (ex_env 0) (\<lambda>t. t) True [1, 2, 3] mock_P mock_H (ex_globals [[], [7]]))
       \<noteq> 0"
proof -
  have valid: "baseVerify (ex_env 0) [1, 2, 3] mock_P mock_H"
    by (simp add: ex_env_sel mock_verify_valid)
  have miss: "ex_entry \<notin> elems [[], [7]]"
    by (simp add: elems_def ex_entry_def)
  have "Set (ex_env 0) (\<lambda>t. t) (ex_cache [[], [7]]) ex_entry = Some (ex_cache [[], [7]])"
    by (rule Set_zero) (simp add: ex_env_sel)
  with valid miss have call:
    "VerifySignature (ex_env 0) (\<lambda>t. t) True [1, 2, 3] mock_P mock_H (ex_globals [[], [7]])
       = (1, Some (True, ex_globals [[], [7]]))"
    by (simp add: VerifySignature_def Let_def Get_def us_count_def ex_globals_sel ex_cache_sel
        entry_valid [folded ex_entry_def] ex_globals_upd)
  from valid call show ?thesis
    by simp
qed

end
